theory Spec2Isabelle
  imports Complex_Main "HOL-Library.Multiset"
begin

section \<open>Python primitives used by the retrieval core\<close>

text \<open>
  The development embeds \<^verbatim>\<open>agent/core/retrieval.py\<close>, the parts of
  \<^verbatim>\<open>agent/core/io.py\<close> it ingests, and \<^verbatim>\<open>agent/core/retrieval_benchmark.py\<close>.

  Conventions of the embedding:
  \<^item> a Python \<^verbatim>\<open>str\<close> is a \<^typ>\<open>string\<close> whose characters are read as code points
    below 256 (ASCII and Latin-1);
  \<^item> a Python \<^verbatim>\<open>float\<close> is an exact \<^typ>\<open>real\<close>, so \<^verbatim>\<open>math.sqrt\<close> is \<^const>\<open>sqrt\<close> and
    \<^verbatim>\<open>round(x, n)\<close> rounds the exact value, a tie going to the even neighbour;
  \<^item> a \<^verbatim>\<open>dict\<close> (and a \<^verbatim>\<open>Counter\<close>) is an association list with distinct keys in
    insertion order;
  \<^item> record fields carry the name of their class as a prefix (\<open>doc_id\<close>, \<open>hit_id\<close>, ...),
    since the fields of all records share one name space.
\<close>

subsection \<open>Strings\<close>

text \<open>\<^verbatim>\<open>str.isspace\<close> on one code point below 256.\<close>

definition isspace :: "char \<Rightarrow> bool" where
  "isspace c =
     (let n = (of_char c :: nat)
      in (9 \<le> n \<and> n \<le> 13) \<or> (28 \<le> n \<and> n \<le> 32) \<or> n = 133 \<or> n = 160)"

text \<open>\<^verbatim>\<open>str.lower\<close> on one code point below 256: the letters A-Z and the Latin-1 capitals
  (U+00C0 to U+00DE without the multiplication sign U+00D7) move up by 32.\<close>

definition lower_char :: "char \<Rightarrow> char" where
  "lower_char c =
     (let n = (of_char c :: nat)
      in if (65 \<le> n \<and> n \<le> 90) \<or> (192 \<le> n \<and> n \<le> 222 \<and> n \<noteq> 215)
         then char_of (n + 32) else c)"

definition lower :: "string \<Rightarrow> string" where
  "lower s = map lower_char s"

text \<open>\<^verbatim>\<open>text.split()\<close>: the maximal runs of characters that are not whitespace, in order.
  The first argument is the run read so far.\<close>

fun split_from :: "string \<Rightarrow> string \<Rightarrow> string list" where
  "split_from cur [] = (if cur = [] then [] else [cur])"
| "split_from cur (c # cs) =
     (if isspace c
      then (if cur = [] then split_from [] cs else cur # split_from [] cs)
      else split_from (cur @ [c]) cs)"

definition str_split :: "string \<Rightarrow> string list" where
  "str_split text = split_from [] text"

text \<open>\<^verbatim>\<open>s.strip(chars)\<close> removes the leading and trailing characters that are in
  \<open>chars\<close>; \<^verbatim>\<open>s.strip()\<close> removes leading and trailing whitespace.\<close>

definition strip_chars :: "string \<Rightarrow> string \<Rightarrow> string" where
  "strip_chars chars s =
     rev (dropWhile (\<lambda>c. c \<in> set chars) (rev (dropWhile (\<lambda>c. c \<in> set chars) s)))"

definition strip :: "string \<Rightarrow> string" where
  "strip s = rev (dropWhile isspace (rev (dropWhile isspace s)))"

subsection \<open>Numbers, dictionaries, slices, sorting\<close>

text \<open>\<^verbatim>\<open>round(x, ndigits)\<close>: the nearest multiple of \<open>10 ^ -ndigits\<close>, a tie going to the
  even one.\<close>

definition round_half_even :: "real \<Rightarrow> int" where
  "round_half_even y =
     (let f = \<lfloor>y\<rfloor>; d = y - of_int f
      in if d < 1 / 2 then f else if 1 / 2 < d then f + 1 else if even f then f else f + 1)"

definition py_round :: "real \<Rightarrow> nat \<Rightarrow> real" where
  "py_round x ndigits = of_int (round_half_even (x * 10 ^ ndigits)) / 10 ^ ndigits"

text \<open>\<^verbatim>\<open>d.get(k, default)\<close>.\<close>

definition dict_get :: "('k \<times> 'v) list \<Rightarrow> 'k \<Rightarrow> 'v \<Rightarrow> 'v" where
  "dict_get d k dflt = (case map_of d k of None \<Rightarrow> dflt | Some v \<Rightarrow> v)"

text \<open>The slice \<^verbatim>\<open>xs[:k]\<close>: the first \<open>k\<close> elements for \<open>k \<ge> 0\<close>, and all but the
  last \<open>-k\<close> elements for a negative \<open>k\<close>.\<close>

definition slice_to :: "int \<Rightarrow> 'a list \<Rightarrow> 'a list" where
  "slice_to k xs = (if 0 \<le> k then take (nat k) xs else take (length xs - nat (- k)) xs)"

text \<open>\<^verbatim>\<open>Counter(tokens)\<close>: each token with its number of occurrences, keys in the order
  of their first occurrence.\<close>

fun counter_add :: "(string \<times> nat) list \<Rightarrow> string \<Rightarrow> (string \<times> nat) list" where
  "counter_add [] t = [(t, 1)]"
| "counter_add ((k, v) # kvs) t =
     (if k = t then (k, v + 1) # kvs else (k, v) # counter_add kvs t)"

definition Counter :: "string list \<Rightarrow> (string \<times> nat) list" where
  "Counter tokens = foldl counter_add [] tokens"

section \<open>Tokenizer and embedder (retrieval.py)\<close>

text \<open>The argument of \<^verbatim>\<open>strip\<close> in \<^verbatim>\<open>_tokenize\<close> is written as two adjacent string
  literals, \<^verbatim>\<open>".,;:!?()[]{}<>"\<close> and \<^verbatim>\<open>"'\n\t"\<close>, which Python concatenates: the set
  holds the apostrophe, the newline and the tab, and no double quote.\<close>

definition punctuation :: string where
  "punctuation = ''.,;:!?()[]{}<>'' @ [CHR 0x27, CHR 0x0A, CHR 0x09]"

definition tokenize :: "string \<Rightarrow> string list" where
  "tokenize text =
     map (\<lambda>t. lower (strip_chars punctuation t)) (filter (\<lambda>t. strip t \<noteq> []) (str_split text))"

definition normalize_counts :: "(string \<times> nat) list \<Rightarrow> (string \<times> real) list" where
  "normalize_counts counter =
     (let s = sqrt (\<Sum>(k, v) \<leftarrow> counter. real (v * v));
          norm = (if s = 0 then 1 else s)
      in map (\<lambda>(k, v). (k, real v / norm)) counter)"

definition embed_text :: "string \<Rightarrow> (string \<times> real) list" where
  "embed_text text = normalize_counts (Counter (tokenize text))"

section \<open>In-memory vector index (retrieval.py)\<close>

record indexed_document =
  doc_id :: string
  doc_vector :: "(string \<times> real) list"
  doc_summary :: string
  doc_tags :: "string list"
  doc_modality :: string
  doc_sources :: "string list"

record retrieval_hit =
  hit_id :: string
  hit_score :: real
  hit_summary :: string
  hit_tags :: "string list"
  hit_modality :: string
  hit_sources :: "string list"

record retrieval_response =
  hits :: "retrieval_hit list"

text \<open>The state of an \<^verbatim>\<open>InMemoryVectorIndex\<close> is its list \<^verbatim>\<open>_docs\<close>.\<close>

type_synonym vector_index = "indexed_document list"

text \<open>\<^verbatim>\<open>InMemoryVectorIndex.add\<close>; an absent \<^verbatim>\<open>tags\<close> or \<^verbatim>\<open>sources\<close> argument is \<open>None\<close>.\<close>

definition index_add ::
  "vector_index \<Rightarrow> string \<Rightarrow> string \<Rightarrow> string \<Rightarrow> string list option \<Rightarrow> string
     \<Rightarrow> string list option \<Rightarrow> vector_index" where
  "index_add docs did text summary tags modality sources =
     (let vector = embed_text text
      in docs @ [\<lparr>doc_id = did, doc_vector = vector, doc_summary = summary,
                   doc_tags = (case tags of None \<Rightarrow> [] | Some ts \<Rightarrow> ts),
                   doc_modality = modality,
                   doc_sources = (case sources of None \<Rightarrow> [] | Some ss \<Rightarrow> ss)\<rparr>])"

definition similarity :: "(string \<times> real) list \<Rightarrow> (string \<times> real) list \<Rightarrow> real" where
  "similarity query_vector doc_vec =
     (\<Sum>(tok, weight) \<leftarrow> doc_vec. dict_get query_vector tok 0 * weight)"

text \<open>\<^verbatim>\<open>sorted(hs, key=lambda h: h.score, reverse=True)\<close>: descending by score; the sort is
  stable, so hits of equal score keep their order. Insertion by the negated score, from the
  right end of the list, is that order.\<close>

definition sorted_by_score_desc :: "retrieval_hit list \<Rightarrow> retrieval_hit list" where
  "sorted_by_score_desc hs = sort_key (\<lambda>h. - hit_score h) hs"

definition scored_hit :: "(string \<times> real) list \<Rightarrow> indexed_document \<Rightarrow> retrieval_hit" where
  "scored_hit query_vector doc =
     (let score = similarity query_vector (doc_vector doc)
      in \<lparr>hit_id = doc_id doc, hit_score = py_round score 4, hit_summary = doc_summary doc,
          hit_tags = doc_tags doc, hit_modality = doc_modality doc,
          hit_sources = doc_sources doc\<rparr>)"

definition index_query :: "vector_index \<Rightarrow> string \<Rightarrow> int \<Rightarrow> retrieval_hit list" where
  "index_query docs text top_k =
     (let query_vector = embed_text text;
          scored = map (scored_hit query_vector) docs
      in slice_to top_k (sorted_by_score_desc scored))"

definition index_reset :: "vector_index \<Rightarrow> vector_index" where
  "index_reset docs = []"

section \<open>Knowledge bundles (io.py)\<close>

record knowledge_slice =
  slice_id :: string
  slice_summary :: string
  slice_highlights :: "string list"
  slice_modality :: string
  slice_source_refs :: "string list"
  slice_tags :: "string list"

record knowledge_bundle =
  slices :: "knowledge_slice list"

text \<open>The constructor of \<^verbatim>\<open>KnowledgeSlice\<close> runs the validator \<^verbatim>\<open>ensure_highlights\<close>,
  which drops the empty highlights.\<close>

definition KnowledgeSlice ::
  "string \<Rightarrow> string \<Rightarrow> string list \<Rightarrow> string \<Rightarrow> string list \<Rightarrow> string list
     \<Rightarrow> knowledge_slice" where
  "KnowledgeSlice sid summary highlights modality tags source_refs =
     \<lparr>slice_id = sid, slice_summary = summary,
      slice_highlights = filter (\<lambda>h. h \<noteq> []) highlights,
      slice_modality = modality, slice_source_refs = source_refs, slice_tags = tags\<rparr>"

text \<open>An entry of \<^verbatim>\<open>from_texts\<close> is a dict; each key the function reads may be absent.
  \<open>entry_content\<close> is the key \<^verbatim>\<open>content\<close> of a text, \<^verbatim>\<open>caption\<close> of an image and
  \<^verbatim>\<open>transcript\<close> of an audio entry.\<close>

record entry =
  entry_id :: "string option"
  entry_content :: "string option"
  entry_tags :: "string list option"
  entry_sources :: "string list option"

definition slice_of_entry :: "string \<Rightarrow> entry \<Rightarrow> knowledge_slice" where
  "slice_of_entry modality e =
     (let content = (case entry_content e of None \<Rightarrow> [] | Some c \<Rightarrow> c)
      in KnowledgeSlice
           (case entry_id e of None \<Rightarrow> ''None'' | Some i \<Rightarrow> i)
           content [content] modality
           (case entry_tags e of None \<Rightarrow> [] | Some ts \<Rightarrow> ts)
           (case entry_sources e of None \<Rightarrow> [] | Some ss \<Rightarrow> ss))"

definition from_texts ::
  "entry list option \<Rightarrow> entry list option \<Rightarrow> entry list option \<Rightarrow> knowledge_bundle" where
  "from_texts texts images audio =
     \<lparr>slices =
        map (slice_of_entry ''text'') (case texts of None \<Rightarrow> [] | Some es \<Rightarrow> es)
        @ map (slice_of_entry ''image'') (case images of None \<Rightarrow> [] | Some es \<Rightarrow> es)
        @ map (slice_of_entry ''audio'') (case audio of None \<Rightarrow> [] | Some es \<Rightarrow> es)\<rparr>"

section \<open>Retrieval engine (retrieval.py)\<close>

record retrieval_engine =
  index :: vector_index
  tag_boost :: real
  source_boost :: real

text \<open>\<^verbatim>\<open>RetrievalEngine()\<close> with its defaults.\<close>

definition RetrievalEngine :: "real \<Rightarrow> real \<Rightarrow> retrieval_engine" where
  "RetrievalEngine tb sb = \<lparr>index = [], tag_boost = tb, source_boost = sb\<rparr>"

text \<open>\<^verbatim>\<open>sep.join(xs)\<close>.\<close>

fun join :: "string \<Rightarrow> string list \<Rightarrow> string" where
  "join sep [] = []"
| "join sep [x] = x"
| "join sep (x # y # ys) = x @ sep @ join sep (y # ys)"

definition ingest_slice :: "vector_index \<Rightarrow> knowledge_slice \<Rightarrow> vector_index" where
  "ingest_slice docs sl =
     (let text = join '' '' (slice_summary sl # slice_highlights sl)
      in index_add docs (slice_id sl) text (slice_summary sl) (Some (slice_tags sl))
           (slice_modality sl) (Some (slice_source_refs sl)))"

definition ingest_bundle :: "retrieval_engine \<Rightarrow> knowledge_bundle \<Rightarrow> retrieval_engine \<times> nat" where
  "ingest_bundle e bundle =
     (e\<lparr>index := foldl ingest_slice (index e) (slices bundle)\<rparr>, length (slices bundle))"

text \<open>The body of the loop of \<^verbatim>\<open>RetrievalEngine.query\<close>: the copy of one hit of the index
  with the adjusted score.\<close>

definition adjust :: "real \<Rightarrow> real \<Rightarrow> string set \<Rightarrow> retrieval_hit \<Rightarrow> retrieval_hit" where
  "adjust tb sb query_tokens hit =
     (let tag_bonus = tb * real (card (query_tokens \<inter> set (hit_tags hit)));
          source_bonus = (if hit_sources hit \<noteq> [] then sb else 0)
      in hit\<lparr>hit_score := py_round (hit_score hit + tag_bonus + source_bonus) 4\<rparr>)"

definition engine_query :: "retrieval_engine \<Rightarrow> string \<Rightarrow> int \<Rightarrow> retrieval_response" where
  "engine_query e text top_k =
     (let query_tokens = set (tokenize text);
          hs = map (adjust (tag_boost e) (source_boost e) query_tokens)
                 (index_query (index e) text top_k)
      in \<lparr>hits = slice_to top_k (sorted_by_score_desc hs)\<rparr>)"

definition engine_reset :: "retrieval_engine \<Rightarrow> retrieval_engine" where
  "engine_reset e = e\<lparr>index := index_reset (index e)\<rparr>"

section \<open>Benchmark runner (retrieval_benchmark.py)\<close>

record retrieval_benchmark_case =
  case_id :: string
  case_bundle :: knowledge_bundle
  case_query :: string
  case_relevant_ids :: "string list"
  case_top_k :: int

record retrieval_benchmark_result =
  result_case_id :: string
  result_hits :: "retrieval_hit list"
  precision_at_k :: real
  recall_at_k :: real
  relevant_found :: "string list"

record retrieval_benchmark_suite =
  results :: "retrieval_benchmark_result list"
  macro_precision :: real
  macro_recall :: real

text \<open>\<^verbatim>\<open>RetrievalBenchmarkRunner.__post_init__\<close>: an absent engine becomes
  \<^verbatim>\<open>RetrievalEngine()\<close>.\<close>

definition RetrievalBenchmarkRunner :: "retrieval_engine option \<Rightarrow> retrieval_engine" where
  "RetrievalBenchmarkRunner engine =
     (case engine of None \<Rightarrow> RetrievalEngine 0 0 | Some e \<Rightarrow> e)"

text \<open>The body of the loop of \<^verbatim>\<open>RetrievalBenchmarkRunner.run\<close> for one case: the result
  of the case and the engine as the case leaves it.\<close>

definition run_case ::
  "retrieval_engine \<Rightarrow> retrieval_benchmark_case
     \<Rightarrow> retrieval_benchmark_result \<times> retrieval_engine" where
  "run_case e c =
     (let e1 = engine_reset e;
          e2 = fst (ingest_bundle e1 (case_bundle c));
          hs = hits (engine_query e2 (case_query c) (case_top_k c));
          hit_ids = map hit_id hs;
          found = filter (\<lambda>hid. hid \<in> set (case_relevant_ids c)) hit_ids;
          precision = py_round (real (length found) / real (max (length hs) 1)) 4;
          recall = py_round (real (length found) / real (max (length (case_relevant_ids c)) 1)) 4
      in (\<lparr>result_case_id = case_id c, result_hits = hs, precision_at_k = precision,
           recall_at_k = recall, relevant_found = found\<rparr>, e2))"

fun run_loop ::
  "retrieval_engine \<Rightarrow> retrieval_benchmark_result list \<Rightarrow> retrieval_benchmark_case list
     \<Rightarrow> retrieval_benchmark_result list \<times> retrieval_engine" where
  "run_loop e per_case [] = (per_case, e)"
| "run_loop e per_case (c # cs) =
     (let (r, e') = run_case e c in run_loop e' (per_case @ [r]) cs)"

definition run ::
  "retrieval_engine \<Rightarrow> retrieval_benchmark_case list
     \<Rightarrow> retrieval_benchmark_suite \<times> retrieval_engine" where
  "run e cases =
     (let (per_case, e') = run_loop e [] cases;
          mp = py_round (sum_list (map precision_at_k per_case) / real (max (length per_case) 1)) 4;
          mr = py_round (sum_list (map recall_at_k per_case) / real (max (length per_case) 1)) 4
      in (\<lparr>results = per_case, macro_precision = mp, macro_recall = mr\<rparr>, e'))"

text \<open>The first of the built-in cases of \<^verbatim>\<open>default_benchmark_cases\<close>.\<close>

definition research_diagram :: retrieval_benchmark_case where
  "research_diagram =
     \<lparr>case_id = ''research-diagram'',
      case_bundle = from_texts
        (Some [\<lparr>entry_id = Some ''text-transformer'',
                 entry_content =
                   Some ''Transformer paper overview with attention diagrams and layer norms'',
                 entry_tags = Some [''nlp'', ''attention''], entry_sources = None\<rparr>,
               \<lparr>entry_id = Some ''text-cv'',
                 entry_content = Some ''CNN architecture with pooling layers and feature maps'',
                 entry_tags = Some [''cv''], entry_sources = None\<rparr>])
        (Some [\<lparr>entry_id = Some ''image-attention'',
                 entry_content =
                   Some ''A heatmap showing transformer attention weights over tokens'',
                 entry_tags = Some [''attention'', ''visualization''], entry_sources = None\<rparr>])
        None,
      case_query = ''attention diagram for transformers'',
      case_relevant_ids = [''text-transformer'', ''image-attention''],
      case_top_k = 3\<rparr>"

section \<open>Automated benchmark runner (retrieval_benchmark.py)\<close>

record adapter_benchmark_result =
  adapter :: string
  suite :: retrieval_benchmark_suite
  duration_ms :: real

record automated_benchmark_summary =
  summary_runs :: "adapter_benchmark_result list"
  summary_macro_precision :: real
  summary_macro_recall :: real
  summary_history :: "adapter_benchmark_result list option"

text \<open>\<^verbatim>\<open>collections.deque(maxlen=n)\<close>: \<^verbatim>\<open>append\<close> adds at the right end and, when the
  deque then holds more than \<open>maxlen\<close> items, removes the leftmost one.\<close>

record 'a deque =
  maxlen :: nat
  items :: "'a list"

definition deque_append :: "'a deque \<Rightarrow> 'a \<Rightarrow> 'a deque" where
  "deque_append d x =
     (let xs = items d @ [x]
      in d\<lparr>items := (if maxlen d < length xs then tl xs else xs)\<rparr>)"

type_synonym adapter_factories = "(string \<times> (unit \<Rightarrow> retrieval_engine)) list"

definition default_adapter_factories :: adapter_factories where
  "default_adapter_factories =
     [(''baseline_bow'', \<lambda>_. RetrievalEngine 0 0),
      (''tag_bias'', \<lambda>_. RetrievalEngine (2 / 10) 0),
      (''source_bias'', \<lambda>_. RetrievalEngine 0 (5 / 100))]"

record automated_benchmark_runner =
  adapters :: adapter_factories
  history_limit :: int
  history :: "adapter_benchmark_result deque"

datatype py_error = ValueError

text \<open>The constructor with \<^verbatim>\<open>__post_init__\<close>: an absent or empty mapping of adapters
  becomes the default one; \<^verbatim>\<open>deque\<close> raises \<^verbatim>\<open>ValueError\<close> on a negative \<open>maxlen\<close>.\<close>

definition AutomatedBenchmarkRunner ::
  "adapter_factories option \<Rightarrow> int \<Rightarrow> py_error + automated_benchmark_runner" where
  "AutomatedBenchmarkRunner ads limit =
     (let ads' = (case ads of None \<Rightarrow> default_adapter_factories
                  | Some a \<Rightarrow> if a = [] then default_adapter_factories else a)
      in if limit < 0 then Inl ValueError
         else Inr \<lparr>adapters = ads', history_limit = limit,
                   history = \<lparr>maxlen = nat limit, items = []\<rparr>\<rparr>)"

text \<open>The loop of \<^verbatim>\<open>run_all\<close> over the resolved names. \<open>elapsed k\<close> is the time in
  seconds that \<^verbatim>\<open>perf_counter\<close> measures around the benchmark of the adapter that is run
  as the \<open>k\<close>-th of the call.\<close>

fun run_adapters ::
  "adapter_factories \<Rightarrow> (nat \<Rightarrow> real) \<Rightarrow> retrieval_benchmark_case list \<Rightarrow> bool
     \<Rightarrow> adapter_benchmark_result list \<Rightarrow> adapter_benchmark_result deque \<Rightarrow> string list
     \<Rightarrow> adapter_benchmark_result list \<times> adapter_benchmark_result deque" where
  "run_adapters ads elapsed cases track_history runs hist [] = (runs, hist)"
| "run_adapters ads elapsed cases track_history runs hist (name # names) =
     (case map_of ads name of
        None \<Rightarrow> run_adapters ads elapsed cases track_history runs hist names
      | Some factory \<Rightarrow>
          (let engine = factory ();
               runner = RetrievalBenchmarkRunner (Some engine);
               s = fst (run runner cases);
               d = py_round (elapsed (length runs) * 1000) 2;
               result = \<lparr>adapter = name, suite = s, duration_ms = d\<rparr>
           in run_adapters ads elapsed cases track_history (runs @ [result])
                (if track_history then deque_append hist result else hist) names))"

definition run_all ::
  "automated_benchmark_runner \<Rightarrow> (nat \<Rightarrow> real) \<Rightarrow> retrieval_benchmark_case list
     \<Rightarrow> string list option \<Rightarrow> bool
     \<Rightarrow> automated_benchmark_summary \<times> automated_benchmark_runner" where
  "run_all r elapsed cases adapter_names track_history =
     (let names = (case adapter_names of None \<Rightarrow> map fst (adapters r)
                   | Some ns \<Rightarrow> if ns = [] then map fst (adapters r) else ns);
          (runs, hist) = run_adapters (adapters r) elapsed cases track_history [] (history r) names;
          mp = py_round (sum_list (map (\<lambda>x. macro_precision (suite x)) runs)
                          / real (max (length runs) 1)) 4;
          mr = py_round (sum_list (map (\<lambda>x. macro_recall (suite x)) runs)
                          / real (max (length runs) 1)) 4
      in (\<lparr>summary_runs = runs, summary_macro_precision = mp, summary_macro_recall = mr,
           summary_history = (if track_history then Some (items hist) else None)\<rparr>,
          r\<lparr>history := hist\<rparr>))"

section \<open>Notions used to state the properties\<close>


text \<open>The last \<open>n\<close> elements of a list: the \<open>n\<close> most recent entries of a history.\<close>

definition last_n :: "nat \<Rightarrow> 'a list \<Rightarrow> 'a list" where
  "last_n n xs = drop (length xs - n) xs"

text \<open>The states of an \<^verbatim>\<open>AutomatedBenchmarkRunner\<close>: the one its constructor returns, and
  the one any call of \<^verbatim>\<open>run_all\<close> leaves.\<close>

inductive reachable :: "automated_benchmark_runner \<Rightarrow> bool" where
  init: "AutomatedBenchmarkRunner ads limit = Inr r \<Longrightarrow> reachable r"
| step: "reachable r \<Longrightarrow> reachable (snd (run_all r elapsed cases adapter_names track_history))"

text \<open>Running the benchmark by hand for one adapter, in the words of the specification:
  instantiate the adapter's engine by its factory and call \<^verbatim>\<open>RetrievalBenchmarkRunner.run\<close>
  on the cases. An unregistered name has no suite.\<close>

definition manual_suite ::
  "adapter_factories \<Rightarrow> string \<Rightarrow> retrieval_benchmark_case list
     \<Rightarrow> retrieval_benchmark_suite option" where
  "manual_suite ads name cases =
     map_option (\<lambda>factory. fst (run (RetrievalBenchmarkRunner (Some (factory ()))) cases))
       (map_of ads name)"

text \<open>The names \<^verbatim>\<open>run_all\<close> is asked to run that are registered, in the order of the
  request.\<close>

definition registered :: "adapter_factories \<Rightarrow> string list \<Rightarrow> string list" where
  "registered ads names = filter (\<lambda>n. map_of ads n \<noteq> None) names"

text \<open>The result that one pass of the loop of \<^verbatim>\<open>run_all\<close> builds for a registered name,
  as the \<open>k\<close>-th run of the call.\<close>

definition adapter_result ::
  "adapter_factories \<Rightarrow> (nat \<Rightarrow> real) \<Rightarrow> retrieval_benchmark_case list \<Rightarrow> nat \<Rightarrow> string
    \<Rightarrow> adapter_benchmark_result" where
  "adapter_result ads elapsed cases k name =
    \<lparr>adapter = name,
     suite = fst (run (RetrievalBenchmarkRunner (Some ((the (map_of ads name)) ()))) cases),
     duration_ms = py_round (elapsed k * 1000) 2\<rparr>"


text \<open>The names that \<^verbatim>\<open>run_all\<close> resolves from its argument \<^verbatim>\<open>adapter_names\<close>.\<close>

definition names_of :: "automated_benchmark_runner \<Rightarrow> string list option \<Rightarrow> string list" where
  "names_of r adapter_names =
     (case adapter_names of None \<Rightarrow> map fst (adapters r)
      | Some ns \<Rightarrow> if ns = [] then map fst (adapters r) else ns)"


section \<open>The tokenizer\<close>

lemmas tokenizer_defs =
  tokenize_def str_split_def isspace_def strip_def strip_chars_def punctuation_def lower_def
  lower_char_def

lemmas embed_defs = embed_text_def normalize_counts_def Counter_def







text \<open>Claim C6, which the code does not meet. The claim: the tokenizer strips the
  double quote as well, drops the tokens that are empty after stripping, and so embeds a text
  of punctuation only as the empty vector. In \<^verbatim>\<open>_tokenize\<close> the filter tests the token
  before stripping, where it is never empty, and the double quote is missing from the stripped
  set: the text \<^verbatim>\<open>!!!\<close> has the one token \<^verbatim>\<open>""\<close>, its embedding maps that empty token
  to weight 1, and the token \<^verbatim>\<open>"a"\<close> keeps its quotes.\<close>

theorem tokenize_keeps_empty_token:
  "tokenize ''!!!'' = [[]]
   \<and> embed_text ''!!!'' = [([], 1)]
   \<and> tokenize [CHR 0x22, CHR ''a'', CHR 0x22] = [[CHR 0x22, CHR ''a'', CHR 0x22]]"
  by (simp add: tokenizer_defs embed_defs)

section \<open>The embedder\<close>
















section \<open>The vector index\<close>

lemma length_sorted_by_score_desc [simp]: "length (sorted_by_score_desc hs) = length hs"
  by (simp add: sorted_by_score_desc_def)

lemma mset_sorted_by_score_desc [simp]: "mset (sorted_by_score_desc hs) = mset hs"
  by (simp add: sorted_by_score_desc_def)

lemma set_sorted_by_score_desc [simp]: "set (sorted_by_score_desc hs) = set hs"
  by (simp add: sorted_by_score_desc_def)

lemma length_slice_to:
  "length (slice_to k xs) = (if 0 \<le> k then min (nat k) (length xs) else length xs - nat (- k))"
  by (auto simp: slice_to_def)

text \<open>Claim C3, amended. The claim bounds the number of hits by \<open>min(top_k, document_count)\<close>
  for every integer \<open>top_k\<close> and promises an empty result for every \<open>top_k \<le> 0\<close>. The
  result is the slice \<^verbatim>\<open>[:top_k]\<close> of the sorted hits, so what holds is: for \<open>top_k \<ge> 0\<close>
  the query returns exactly \<open>min(top_k, document_count)\<close> hits, none for \<open>top_k = 0\<close>; for a
  negative \<open>top_k\<close> it returns all hits but the last \<open>-top_k\<close> of the sorted order.\<close>

theorem index_query_length:
  "length (index_query docs s k) =
     (if 0 \<le> k then min (nat k) (length docs) else length docs - nat (- k))
   \<and> index_query docs s 0 = []"
  by (simp add: index_query_def Let_def length_slice_to) (simp add: slice_to_def)

theorem index_query_length_witness:
  "length (index_query (index_add (index_add [] ''a'' [] [] None ''text'' None) ''b'' [] [] None ''text'' None) [] 1) = 1"
  using index_query_length[of "index_add (index_add [] ''a'' [] [] None ''text'' None) ''b'' [] [] None ''text'' None" "[]" 1]
  by (simp add: index_add_def)

text \<open>The counterexample to claim C3 as stated: an index of two documents, queried with
  \<open>top_k = -1\<close>, returns one hit.\<close>

theorem index_query_negative_counterexample:
  "map hit_id (index_query (index_add (index_add [] ''a'' [] [] None ''text'' None) ''b'' [] [] None ''text'' None) [] (- 1)) = [''a'']"
  by (simp add: index_query_def index_add_def embed_defs tokenizer_defs scored_hit_def similarity_def
      sorted_by_score_desc_def slice_to_def py_round_def round_half_even_def)


section \<open>The automated benchmark runner\<close>

lemma last_n_append_last_n:
  "last_n m (last_n m xs @ ys) = last_n m (xs @ ys)"
  by (cases "length xs \<le> m") (auto simp: last_n_def add.commute)

lemma deque_append_items:
  "length (items d) \<le> maxlen d \<Longrightarrow> items (deque_append d x) = last_n (maxlen d) (items d @ [x])"
proof (cases "maxlen d < length (items d @ [x])")
  case True
  assume "length (items d) \<le> maxlen d"
  with True have "length (items d @ [x]) - maxlen d = 1" by simp
  then have "last_n (maxlen d) (items d @ [x]) = tl (items d @ [x])"
    by (simp only: last_n_def drop_Suc One_nat_def drop_0)
  then show ?thesis using True by (simp add: deque_append_def Let_def)
next
  case False
  then show ?thesis by (simp add: deque_append_def Let_def last_n_def)
qed

lemma deque_append_maxlen [simp]: "maxlen (deque_append d x) = maxlen d"
  by (simp add: deque_append_def Let_def)

lemma deque_append_fifo:
  "length (items d) = maxlen d \<Longrightarrow> 0 < maxlen d \<Longrightarrow> items (deque_append d x) = tl (items d) @ [x]"
  by (cases "items d") (auto simp: deque_append_def Let_def)

lemma length_last_n: "length (last_n m xs) \<le> m"
  by (simp add: last_n_def)

lemma deque_append_bounded:
  "length (items d) \<le> maxlen d \<Longrightarrow> length (items (deque_append d x)) \<le> maxlen d"
  by (simp add: deque_append_items length_last_n)

lemma run_adapters_runs:
  "fst (run_adapters ads el cases track runs hist names) =
     runs @ map (\<lambda>(k, n). adapter_result ads el cases k n)
              (enumerate (length runs) (registered ads names))"
proof (induction names arbitrary: runs hist)
  case Nil
  then show ?case by (simp add: registered_def)
next
  case (Cons name names)
  show ?case
  proof (cases "map_of ads name")
    case None
    then show ?thesis using Cons.IH by (simp add: registered_def)
  next
    case (Some factory)
    have r: "registered ads (name # names) = name # registered ads names"
      using Some by (simp add: registered_def)
    show ?thesis using Some Cons.IH
      by (simp add: r Let_def adapter_result_def)
  qed
qed

lemma run_adapters_history:
  "length (items hist) \<le> maxlen hist \<Longrightarrow>
   snd (run_adapters ads el cases track runs hist names) =
     (if track
      then hist\<lparr>items := last_n (maxlen hist)
              (items hist @ drop (length runs) (fst (run_adapters ads el cases track runs hist names)))\<rparr>
      else hist)"
proof (induction names arbitrary: runs hist)
  case Nil
  then show ?case by (simp add: last_n_def)
next
  case (Cons name names)
  show ?case
  proof (cases "map_of ads name")
    case None
    then show ?thesis using Cons by simp
  next
    case (Some factory)
    let ?x = "adapter_result ads el cases (length runs) name"
    let ?h = "if track then deque_append hist ?x else hist"
    have step: "run_adapters ads el cases track runs hist (name # names)
              = run_adapters ads el cases track (runs @ [?x]) ?h names"
      using Some by (simp add: Let_def adapter_result_def)
    have b: "length (items ?h) \<le> maxlen ?h"
      using Cons.prems by (simp add: deque_append_bounded)
    obtain new where new: "fst (run_adapters ads el cases track (runs @ [?x]) ?h names) = (runs @ [?x]) @ new"
      using run_adapters_runs[of ads el cases track "runs @ [?x]" ?h names] by blast
    show ?thesis
    proof (cases track)
      case False
      then show ?thesis using step Cons.IH[OF b] by simp
    next
      case True
      have "snd (run_adapters ads el cases track (runs @ [?x]) ?h names)
            = ?h\<lparr>items := last_n (maxlen ?h) (items ?h @ new)\<rparr>"
        using Cons.IH[OF b, of "runs @ [?x]"] True new by simp
      also have "\<dots> = hist\<lparr>items := last_n (maxlen hist) (items hist @ [?x] @ new)\<rparr>"
        using True Cons.prems
        by (simp add: deque_append_items last_n_append_last_n)
      finally show ?thesis using step new True by simp
    qed
  qed
qed


lemma run_empty: "fst (run e []) = \<lparr>results = [], macro_precision = 0, macro_recall = 0\<rparr>"
  by (simp add: run_def py_round_def round_half_even_def)

lemma run_all_runs:
  "summary_runs (fst (run_all r el cases adapter_names track)) =
     map (\<lambda>(k, n). adapter_result (adapters r) el cases k n)
       (enumerate 0 (registered (adapters r) (names_of r adapter_names)))"
  using run_adapters_runs[of "adapters r" el cases track "[]" "history r" "names_of r adapter_names"]
  by (simp add: run_all_def names_of_def Let_def case_prod_beta')

lemma run_all_history:
  assumes "length (items (history r)) \<le> maxlen (history r)"
  shows "snd (run_all r el cases adapter_names track) =
     (if track
      then r\<lparr>history := (history r)\<lparr>items := last_n (maxlen (history r))
              (items (history r) @ summary_runs (fst (run_all r el cases adapter_names track)))\<rparr>\<rparr>
      else r)"
  using run_adapters_history[OF assms, of "adapters r" el cases track "[]" "names_of r adapter_names"]
  by (simp add: run_all_def names_of_def Let_def case_prod_beta')

lemma registered_keys: "registered ads (map fst ads) = map fst ads"
proof -
  have "\<And>n. n \<in> set (map fst ads) \<Longrightarrow> map_of ads n \<noteq> None"
    by (metis map_of_eq_None_iff set_map)
  then show ?thesis by (simp add: registered_def filter_id_conv)
qed

text \<open>Claim C10. Called with \<^verbatim>\<open>adapter_names\<close> set to the empty list, \<^verbatim>\<open>run_all\<close> does what
  it does with the argument absent: it runs every registered adapter, in the order of the
  mapping.\<close>

theorem run_all_empty_names:
  "run_all r el cases (Some []) track = run_all r el cases None track
   \<and> map adapter (summary_runs (fst (run_all r el cases (Some []) track))) = map fst (adapters r)"
proof -
  have "map adapter (summary_runs (fst (run_all r el cases None track))) = map fst (adapters r)"
    by (simp add: run_all_runs names_of_def registered_keys adapter_result_def case_prod_beta' comp_def
        map_snd_enumerate)
  then show ?thesis by (simp add: run_all_def)
qed


lemma map_of_snd_enumerate: "map (\<lambda>x. f (snd x)) (enumerate n xs) = map f xs"
  by (induction xs arbitrary: n) simp_all

text \<open>Claim C9. For every list of cases, the adapter names and suites of the runs that
  \<^verbatim>\<open>run_all\<close> returns are, in order, the registered names among the resolved ones, each with
  the suite that \<^verbatim>\<open>RetrievalBenchmarkRunner.run\<close> returns on the same cases for the engine its
  factory makes: results per case (hits, precision, recall, relevant ids found) and macro
  metrics are fields of that suite.\<close>

theorem run_all_matches_manual:
  "map (\<lambda>x. (adapter x, Some (suite x)))
       (summary_runs (fst (run_all r el cases adapter_names track)))
   = map (\<lambda>n. (n, manual_suite (adapters r) n cases))
       (registered (adapters r) (names_of r adapter_names))"
proof -
  have "\<And>n. n \<in> set (registered (adapters r) (names_of r adapter_names))
          \<Longrightarrow> manual_suite (adapters r) n cases
              = Some (fst (run (RetrievalBenchmarkRunner (Some ((the (map_of (adapters r) n)) ()))) cases))"
    by (auto simp: registered_def manual_suite_def)
  then have "map (\<lambda>n. (n, manual_suite (adapters r) n cases)) (registered (adapters r) (names_of r adapter_names))
      = map (\<lambda>n. (n, Some (fst (run (RetrievalBenchmarkRunner (Some ((the (map_of (adapters r) n)) ()))) cases))))
          (registered (adapters r) (names_of r adapter_names))"
    by simp
  also have "\<dots> = map (\<lambda>x. (adapter x, Some (suite x)))
       (summary_runs (fst (run_all r el cases adapter_names track)))"
    using map_of_snd_enumerate[of "\<lambda>n. (n, Some (fst (run (RetrievalBenchmarkRunner (Some ((the (map_of (adapters r) n)) ()))) cases)))"
        0 "registered (adapters r) (names_of r adapter_names)"]
    by (simp add: run_all_runs adapter_result_def case_prod_beta' comp_def)
  finally show ?thesis by simp
qed

theorem run_all_matches_manual_witness:
  "map (\<lambda>x. (adapter x, Some (suite x)))
       (summary_runs (fst (run_all
          \<lparr>adapters = default_adapter_factories, history_limit = 2,
            history = \<lparr>maxlen = 2, items = []\<rparr>\<rparr>
          (\<lambda>k. 0) [research_diagram] (Some [''tag_bias'', ''unknown'', ''baseline_bow'']) True)))
   = [(''tag_bias'', Some (fst (run (RetrievalEngine (2 / 10) 0) [research_diagram]))),
      (''baseline_bow'', Some (fst (run (RetrievalEngine 0 0) [research_diagram])))]"
  by (simp add: run_all_matches_manual names_of_def registered_def manual_suite_def
      default_adapter_factories_def RetrievalBenchmarkRunner_def)


lemma reachable_inv:
  "reachable r \<Longrightarrow>
     maxlen (history r) = nat (history_limit r) \<and> 0 \<le> history_limit r
     \<and> length (items (history r)) \<le> maxlen (history r)"
proof (induction rule: reachable.induct)
  case (init ads limit r)
  then show ?case by (auto simp: AutomatedBenchmarkRunner_def Let_def split: if_splits)
next
  case (step r elapsed cases adapter_names track_history)
  then have b: "length (items (history r)) \<le> maxlen (history r)" by simp
  show ?case using step.IH by (simp add: run_all_history[OF b] length_last_n)
qed

lemma adapters_run_all [simp]: "adapters (snd (run_all r el cases adapter_names track)) = adapters r"
  by (simp add: run_all_def Let_def case_prod_beta')

lemma run_all_single:
  "map_of (adapters r) n \<noteq> None \<Longrightarrow>
   summary_runs (fst (run_all r el cases (Some [n]) track)) = [adapter_result (adapters r) el cases 0 n]"
  by (simp add: run_all_runs names_of_def registered_def)

text \<open>Claim C8. In every state of an \<^verbatim>\<open>AutomatedBenchmarkRunner\<close> the history holds at most
  \<open>history_limit\<close> entries. \<^verbatim>\<open>run_all\<close> without \<^verbatim>\<open>track_history\<close> leaves the runner as it is;
  with it, the history becomes the last \<open>history_limit\<close> entries of the old history followed
  by the runs of the call, and an append to a full history drops the oldest entry. With
  capacity 2, three calls in sequence that append one result each leave the results of the
  second and the third call.\<close>

theorem history_bounded_fifo:
  assumes "reachable r"
  shows "int (length (items (history r))) \<le> history_limit r
    \<and> snd (run_all r el cases adapter_names False) = r
    \<and> items (history (snd (run_all r el cases adapter_names True)))
        = last_n (nat (history_limit r))
            (items (history r) @ summary_runs (fst (run_all r el cases adapter_names True)))
    \<and> (length (items (history r)) = nat (history_limit r) \<and> 0 < history_limit r
         \<longrightarrow> items (deque_append (history r) x) = tl (items (history r)) @ [x])
    \<and> (history_limit r = 2
         \<and> r1 = snd (run_all r el1 cases1 names1 True)
         \<and> r2 = snd (run_all r1 el2 cases2 names2 True)
         \<and> r3 = snd (run_all r2 el3 cases3 names3 True)
         \<and> summary_runs (fst (run_all r el1 cases1 names1 True)) = [x1]
         \<and> summary_runs (fst (run_all r1 el2 cases2 names2 True)) = [x2]
         \<and> summary_runs (fst (run_all r2 el3 cases3 names3 True)) = [x3]
         \<longrightarrow> items (history r3) = [x2, x3])"
proof -
  note inv = reachable_inv[OF assms]
  then have b: "length (items (history r)) \<le> maxlen (history r)" by simp
  have 1: "int (length (items (history r))) \<le> history_limit r" using inv by linarith
  have 2: "snd (run_all r el cases adapter_names False) = r"
    by (simp add: run_all_history[OF b])
  have 3: "items (history (snd (run_all r el cases adapter_names True)))
        = last_n (nat (history_limit r))
            (items (history r) @ summary_runs (fst (run_all r el cases adapter_names True)))"
    using inv by (simp add: run_all_history[OF b])
  have 4: "length (items (history r)) = nat (history_limit r) \<and> 0 < history_limit r
         \<longrightarrow> items (deque_append (history r) x) = tl (items (history r)) @ [x]"
    using inv deque_append_fifo[of "history r" x] by simp
  have 5: "history_limit r = 2
         \<and> r1 = snd (run_all r el1 cases1 names1 True)
         \<and> r2 = snd (run_all r1 el2 cases2 names2 True)
         \<and> r3 = snd (run_all r2 el3 cases3 names3 True)
         \<and> summary_runs (fst (run_all r el1 cases1 names1 True)) = [x1]
         \<and> summary_runs (fst (run_all r1 el2 cases2 names2 True)) = [x2]
         \<and> summary_runs (fst (run_all r2 el3 cases3 names3 True)) = [x3]
         \<longrightarrow> items (history r3) = [x2, x3]"
  proof (intro impI, elim conjE)
    assume lim: "history_limit r = 2"
      and r1: "r1 = snd (run_all r el1 cases1 names1 True)"
      and r2: "r2 = snd (run_all r1 el2 cases2 names2 True)"
      and r3: "r3 = snd (run_all r2 el3 cases3 names3 True)"
      and x1: "summary_runs (fst (run_all r el1 cases1 names1 True)) = [x1]"
      and x2: "summary_runs (fst (run_all r1 el2 cases2 names2 True)) = [x2]"
      and x3: "summary_runs (fst (run_all r2 el3 cases3 names3 True)) = [x3]"
    have re1: "reachable r1" unfolding r1 using assms by (rule reachable.step)
    have re2: "reachable r2" unfolding r2 using re1 by (rule reachable.step)
    note i1 = reachable_inv[OF re1] and i2 = reachable_inv[OF re2]
    have h1: "items (history r1) = last_n 2 (items (history r) @ [x1])"
      using inv lim x1 by (simp add: r1 run_all_history[OF b])
    have l1: "maxlen (history r1) = 2" using inv lim by (simp add: r1 run_all_history[OF b])
    have b1: "length (items (history r1)) \<le> maxlen (history r1)" using i1 by simp
    have h2: "items (history r2) = last_n 2 (items (history r1) @ [x2])"
      using l1 x2 by (simp add: r2 run_all_history[OF b1])
    have l2: "maxlen (history r2) = 2" using l1 by (simp add: r2 run_all_history[OF b1])
    have b2: "length (items (history r2)) \<le> maxlen (history r2)" using i2 by simp
    have h3: "items (history r3) = last_n 2 (items (history r2) @ [x3])"
      using l2 x3 by (simp add: r3 run_all_history[OF b2])
    have "items (history r3) = last_n 2 ((items (history r) @ [x1]) @ [x2] @ [x3])"
      unfolding h3 h2 h1 by (simp only: last_n_append_last_n append_assoc)
    also have "\<dots> = [x2, x3]" by (simp add: last_n_def)
    finally show "items (history r3) = [x2, x3]" .
  qed
  from 1 2 3 4 5 show ?thesis by blast
qed


theorem history_bounded_fifo_witness:
  "items (history (snd (run_all (snd (run_all (snd (run_all
       \<lparr>adapters = default_adapter_factories, history_limit = 2,
          history = \<lparr>maxlen = 2, items = []\<rparr>\<rparr>
       (\<lambda>k. 0) [] (Some [''baseline_bow'']) True))
       (\<lambda>k. 0) [] (Some [''tag_bias'']) True))
       (\<lambda>k. 0) [] (Some [''source_bias'']) True)))
   = [adapter_result default_adapter_factories (\<lambda>k. 0) [] 0 ''tag_bias'',
      adapter_result default_adapter_factories (\<lambda>k. 0) [] 0 ''source_bias'']"
proof -
  let ?r0 = "\<lparr>adapters = default_adapter_factories, history_limit = 2,
          history = \<lparr>maxlen = 2, items = []\<rparr>\<rparr>"
  let ?z = "\<lambda>k::nat. 0::real"
  let ?r1 = "snd (run_all ?r0 ?z [] (Some [''baseline_bow'']) True)"
  let ?r2 = "snd (run_all ?r1 ?z [] (Some [''tag_bias'']) True)"
  let ?r3 = "snd (run_all ?r2 ?z [] (Some [''source_bias'']) True)"
  have "AutomatedBenchmarkRunner None 2 = Inr ?r0"
    by (simp add: AutomatedBenchmarkRunner_def)
  then have re: "reachable ?r0" by (rule reachable.init)
  have x1: "summary_runs (fst (run_all ?r0 ?z [] (Some [''baseline_bow'']) True))
      = [adapter_result default_adapter_factories ?z [] 0 ''baseline_bow'']"
    by (subst run_all_single) (simp_all add: default_adapter_factories_def)
  have x2: "summary_runs (fst (run_all ?r1 ?z [] (Some [''tag_bias'']) True))
      = [adapter_result default_adapter_factories ?z [] 0 ''tag_bias'']"
    by (subst run_all_single) (simp_all add: default_adapter_factories_def)
  have x3: "summary_runs (fst (run_all ?r2 ?z [] (Some [''source_bias'']) True))
      = [adapter_result default_adapter_factories ?z [] 0 ''source_bias'']"
    by (subst run_all_single) (simp_all add: default_adapter_factories_def)
  have lim: "history_limit ?r0 = 2" by simp
  from history_bounded_fifo[OF re, where ?r1.0 = ?r1 and ?r2.0 = ?r2 and ?r3.0 = ?r3
      and ?el1.0 = ?z and ?el2.0 = ?z and ?el3.0 = ?z and ?cases1.0 = "[]" and ?cases2.0 = "[]" and ?cases3.0 = "[]"
      and ?names1.0 = "Some [''baseline_bow'']" and ?names2.0 = "Some [''tag_bias'']"
      and ?names3.0 = "Some [''source_bias'']"
      and ?x1.0 = "adapter_result default_adapter_factories ?z [] 0 ''baseline_bow''"
      and ?x2.0 = "adapter_result default_adapter_factories ?z [] 0 ''tag_bias''"
      and ?x3.0 = "adapter_result default_adapter_factories ?z [] 0 ''source_bias''"]
  have "history_limit ?r0 = 2
         \<and> ?r1 = ?r1 \<and> ?r2 = ?r2 \<and> ?r3 = ?r3
         \<and> summary_runs (fst (run_all ?r0 ?z [] (Some [''baseline_bow'']) True)) = [adapter_result default_adapter_factories ?z [] 0 ''baseline_bow'']
         \<and> summary_runs (fst (run_all ?r1 ?z [] (Some [''tag_bias'']) True)) = [adapter_result default_adapter_factories ?z [] 0 ''tag_bias'']
         \<and> summary_runs (fst (run_all ?r2 ?z [] (Some [''source_bias'']) True)) = [adapter_result default_adapter_factories ?z [] 0 ''source_bias'']
         \<longrightarrow> items (history ?r3) = [adapter_result default_adapter_factories ?z [] 0 ''tag_bias'',
      adapter_result default_adapter_factories ?z [] 0 ''source_bias'']"
    by blast
  with lim x1 x2 x3 show ?thesis by blast
qed


section \<open>Rounding\<close>

lemma round_half_even_bounds: "\<lfloor>y\<rfloor> \<le> round_half_even y \<and> round_half_even y \<le> \<lfloor>y\<rfloor> + 1"
  by (simp add: round_half_even_def Let_def)

lemma round_half_even_mono: "x \<le> y \<Longrightarrow> round_half_even x \<le> round_half_even y"
proof -
  assume le: "x \<le> y"
  then have f: "\<lfloor>x\<rfloor> \<le> \<lfloor>y\<rfloor>" by (rule floor_mono)
  show ?thesis
  proof (cases "\<lfloor>x\<rfloor> = \<lfloor>y\<rfloor>")
    case True
    then have "x - of_int \<lfloor>x\<rfloor> \<le> y - of_int \<lfloor>y\<rfloor>" using le by simp
    then show ?thesis using True by (auto simp: round_half_even_def Let_def)
  next
    case False
    then have "\<lfloor>x\<rfloor> + 1 \<le> \<lfloor>y\<rfloor>" using f by simp
    then show ?thesis
      using round_half_even_bounds[of x] round_half_even_bounds[of y] by linarith
  qed
qed

lemma round_half_even_of_int [simp]: "round_half_even (of_int n) = n"
  by (simp add: round_half_even_def)

lemma py_round_mono: "x \<le> y \<Longrightarrow> py_round x n \<le> py_round y n"
  by (simp add: py_round_def round_half_even_mono divide_right_mono)

lemma py_round_0 [simp]: "py_round 0 n = 0"
  using round_half_even_of_int[of 0] by (simp add: py_round_def del: round_half_even_of_int)

lemma py_round_1 [simp]: "py_round 1 n = 1"
  using round_half_even_of_int[of "10 ^ n"] by (simp add: py_round_def del: round_half_even_of_int)




section \<open>The retrieval engine\<close>

lemma hit_id_adjust [simp]: "hit_id (adjust tb sb q h) = hit_id h"
  by (simp add: adjust_def Let_def)

lemma hit_tags_adjust [simp]: "hit_tags (adjust tb sb q h) = hit_tags h"
  by (simp add: adjust_def Let_def)

lemma hit_id_scored_hit [simp]: "hit_id (scored_hit qv d) = doc_id d"
  by (simp add: scored_hit_def Let_def)

lemma mset_slice_to_subset: "mset (slice_to k xs) \<subseteq># mset xs"
proof -
  have "\<And>n. mset (take n xs) \<subseteq># mset xs"
    by (metis append_take_drop_id mset_append mset_subset_eq_add_left)
  then show ?thesis by (simp add: slice_to_def)
qed

lemma slice_to_all: "0 \<le> k \<Longrightarrow> length xs \<le> nat k \<Longrightarrow> slice_to k xs = xs"
  by (simp add: slice_to_def)




lemma index_query_all:
  "0 \<le> k \<Longrightarrow> length docs \<le> nat k \<Longrightarrow>
   mset (index_query docs s k) = image_mset (scored_hit (embed_text s)) (mset docs)"
  by (simp add: index_query_def Let_def slice_to_all)

lemma engine_query_subset:
  "mset (hits (engine_query e s k))
     \<subseteq># image_mset (adjust (tag_boost e) (source_boost e) (set (tokenize s)))
          (mset (index_query (index e) s k))"
  using mset_slice_to_subset[of k "sorted_by_score_desc
      (map (adjust (tag_boost e) (source_boost e) (set (tokenize s))) (index_query (index e) s k))"]
  by (simp add: engine_query_def Let_def)

lemma engine_query_keeps:
  "0 \<le> k \<Longrightarrow>
   mset (hits (engine_query e s k))
     = image_mset (adjust (tag_boost e) (source_boost e) (set (tokenize s)))
          (mset (index_query (index e) s k))"
proof -
  assume k: "0 \<le> k"
  have "length (index_query (index e) s k) \<le> nat k"
    using k by (simp add: index_query_def Let_def length_slice_to)
  then show ?thesis using k by (simp add: engine_query_def Let_def slice_to_all)
qed


lemmas index_defs = index_query_def index_add_def scored_hit_def similarity_def dict_get_def
  sorted_by_score_desc_def slice_to_def

lemmas round_defs = py_round_def round_half_even_def

text \<open>Claim C7. For a fixed index, query text, \<open>top_k\<close> and \<open>source_boost\<close>, and two values
  \<open>b1 \<le> b2\<close> of \<open>tag_boost\<close>: the adjusted score of every hit of the index under \<open>b2\<close> is
  at least its adjusted score under \<open>b1\<close> (so for the hits whose tags meet the query's
  tokens), and the two are equal for a hit with no tag among the query's tokens. The hits that
  \<^verbatim>\<open>RetrievalEngine.query\<close> returns under either boost are adjusted hits of the index.\<close>

theorem tag_boost_monotone:
  assumes "b1 \<le> b2"
  shows "(\<forall>h \<in> set (index_query docs s k).
            hit_score (adjust b1 sb (set (tokenize s)) h) \<le> hit_score (adjust b2 sb (set (tokenize s)) h)
            \<and> (set (tokenize s) \<inter> set (hit_tags h) = {}
                 \<longrightarrow> hit_score (adjust b1 sb (set (tokenize s)) h)
                     = hit_score (adjust b2 sb (set (tokenize s)) h)))
    \<and> set (hits (engine_query \<lparr>index = docs, tag_boost = b1, source_boost = sb\<rparr> s k))
         \<subseteq> adjust b1 sb (set (tokenize s)) ` set (index_query docs s k)
    \<and> set (hits (engine_query \<lparr>index = docs, tag_boost = b2, source_boost = sb\<rparr> s k))
         \<subseteq> adjust b2 sb (set (tokenize s)) ` set (index_query docs s k)"
proof (intro conjI ballI impI)
  fix h :: retrieval_hit
  let ?n = "real (card (set (tokenize s) \<inter> set (hit_tags h)))"
  have "b1 * ?n \<le> b2 * ?n" using assms by (simp add: mult_right_mono)
  then show "hit_score (adjust b1 sb (set (tokenize s)) h) \<le> hit_score (adjust b2 sb (set (tokenize s)) h)"
    by (simp add: adjust_def Let_def py_round_mono)
next
  fix h :: retrieval_hit assume "set (tokenize s) \<inter> set (hit_tags h) = {}"
  then show "hit_score (adjust b1 sb (set (tokenize s)) h) = hit_score (adjust b2 sb (set (tokenize s)) h)"
    by (simp add: adjust_def Let_def)
next
  show "set (hits (engine_query \<lparr>index = docs, tag_boost = b1, source_boost = sb\<rparr> s k))
         \<subseteq> adjust b1 sb (set (tokenize s)) ` set (index_query docs s k)"
    using set_mset_mono[OF engine_query_subset[of "\<lparr>index = docs, tag_boost = b1, source_boost = sb\<rparr>" s k]]
    by simp
next
  show "set (hits (engine_query \<lparr>index = docs, tag_boost = b2, source_boost = sb\<rparr> s k))
         \<subseteq> adjust b2 sb (set (tokenize s)) ` set (index_query docs s k)"
    using set_mset_mono[OF engine_query_subset[of "\<lparr>index = docs, tag_boost = b2, source_boost = sb\<rparr>" s k]]
    by simp
qed


theorem tag_boost_monotone_witness:
  "hit_score (adjust 0 0 (set (tokenize ''a''))
      \<lparr>hit_id = ''d'', hit_score = 1, hit_summary = ''s'', hit_tags = [''a''],
        hit_modality = ''text'', hit_sources = []\<rparr>)
   \<le> hit_score (adjust (2 / 10) 0 (set (tokenize ''a''))
      \<lparr>hit_id = ''d'', hit_score = 1, hit_summary = ''s'', hit_tags = [''a''],
        hit_modality = ''text'', hit_sources = []\<rparr>)"
proof -
  let ?docs = "index_add [] ''d'' ''a'' ''s'' (Some [''a'']) ''text'' None"
  let ?h = "\<lparr>hit_id = ''d'', hit_score = 1, hit_summary = ''s'', hit_tags = [''a''],
        hit_modality = ''text'', hit_sources = []\<rparr>"
  have le: "(0::real) \<le> 2 / 10" by simp
  have "index_query ?docs ''a'' 1 = [?h]"
    by (simp add: index_defs embed_defs tokenizer_defs round_defs)
  then have "?h \<in> set (index_query ?docs ''a'' 1)" by simp
  with tag_boost_monotone[of 0 "2 / 10" ?docs "''a''" 1 0] le show ?thesis by blast
qed






section \<open>The benchmark runner\<close>

lemma doc_ids_index_add [simp]:
  "map doc_id (index_add docs did s summary tags modality sources) = map doc_id docs @ [did]"
  by (simp add: index_add_def Let_def)

lemma doc_ids_ingest:
  "map doc_id (foldl ingest_slice docs sls) = map doc_id docs @ map slice_id sls"
  by (induction sls arbitrary: docs) (simp_all add: ingest_slice_def Let_def)

lemma index_after_ingest:
  "map doc_id (index (fst (ingest_bundle (engine_reset e) b))) = map slice_id (slices b)"
  by (simp add: ingest_bundle_def engine_reset_def index_reset_def doc_ids_ingest)


lemma engine_query_ids_all:
  assumes "0 \<le> k" "length (index e) \<le> nat k"
  shows "mset (map hit_id (hits (engine_query e s k))) = mset (map doc_id (index e))"
  by (simp add: engine_query_keeps[OF assms(1)] index_query_all[OF assms] multiset.map_comp comp_def)



lemma run_case_fields:
  "relevant_found (fst (run_case e c))
     = filter (\<lambda>hid. hid \<in> set (case_relevant_ids c)) (map hit_id (result_hits (fst (run_case e c))))
   \<and> precision_at_k (fst (run_case e c))
     = py_round (real (length (relevant_found (fst (run_case e c))))
                 / real (max (length (result_hits (fst (run_case e c)))) 1)) 4
   \<and> recall_at_k (fst (run_case e c))
     = py_round (real (length (relevant_found (fst (run_case e c))))
                 / real (max (length (case_relevant_ids c)) 1)) 4"
  by (simp add: run_case_def Let_def)





lemma run_case_all_hits:
  assumes "0 \<le> case_top_k c" "length (slices (case_bundle c)) \<le> nat (case_top_k c)"
  shows "mset (map hit_id (result_hits (fst (run_case e c))))
     = mset (map slice_id (slices (case_bundle c)))"
proof -
  let ?e2 = "fst (ingest_bundle (engine_reset e) (case_bundle c))"
  have ids: "map doc_id (index ?e2) = map slice_id (slices (case_bundle c))"
    by (rule index_after_ingest)
  then have "length (map doc_id (index ?e2)) = length (map slice_id (slices (case_bundle c)))"
    by (simp only:)
  then have len: "length (index ?e2) \<le> nat (case_top_k c)" using assms(2) by simp
  have "result_hits (fst (run_case e c)) = hits (engine_query ?e2 (case_query c) (case_top_k c))"
    by (simp add: run_case_def Let_def)
  then show ?thesis
    using engine_query_ids_all[OF assms(1) len, of "case_query c"] ids by (simp del: mset_map)
qed

lemma run_case_counts:
  assumes "0 \<le> case_top_k c" "length (slices (case_bundle c)) \<le> nat (case_top_k c)"
  shows "length (result_hits (fst (run_case e c))) = length (slices (case_bundle c))
    \<and> length (relevant_found (fst (run_case e c)))
        = length (filter (\<lambda>hid. hid \<in> set (case_relevant_ids c))
            (map slice_id (slices (case_bundle c))))
    \<and> set (relevant_found (fst (run_case e c)))
        = set (filter (\<lambda>hid. hid \<in> set (case_relevant_ids c))
            (map slice_id (slices (case_bundle c))))
    \<and> set (map hit_id (result_hits (fst (run_case e c))))
        = set (map slice_id (slices (case_bundle c)))"
proof -
  let ?r = "fst (run_case e c)"
  let ?P = "\<lambda>hid. hid \<in> set (case_relevant_ids c)"
  note m = run_case_all_hits[OF assms, of e]
  have "mset (relevant_found ?r) = filter_mset ?P (mset (map hit_id (result_hits ?r)))"
    using run_case_fields[of e c] by simp
  also have "\<dots> = filter_mset ?P (mset (map slice_id (slices (case_bundle c))))"
    by (simp only: m)
  also have "\<dots> = mset (filter ?P (map slice_id (slices (case_bundle c))))"
    by simp
  finally have fm: "mset (relevant_found ?r)
      = mset (filter ?P (map slice_id (slices (case_bundle c))))" .
  have "length (map hit_id (result_hits ?r)) = length (map slice_id (slices (case_bundle c)))"
    using m by (rule mset_eq_length)
  then have 1: "length (result_hits ?r) = length (slices (case_bundle c))" by simp
  have 2: "length (relevant_found ?r)
      = length (filter ?P (map slice_id (slices (case_bundle c))))"
    using fm by (rule mset_eq_length)
  have 3: "set (relevant_found ?r) = set (filter ?P (map slice_id (slices (case_bundle c))))"
    using fm by (rule mset_eq_setD)
  have 4: "set (map hit_id (result_hits ?r)) = set (map slice_id (slices (case_bundle c)))"
    using m by (rule mset_eq_setD)
  from 1 2 3 4 show ?thesis by blast
qed

lemma run_single: "results (fst (run e [c])) = [fst (run_case e c)]"
  by (simp add: run_def Let_def case_prod_beta')





lemma research_diagram_ids:
  "map slice_id (slices (case_bundle research_diagram))
     = [''text-transformer'', ''text-cv'', ''image-attention'']"
  by (simp add: research_diagram_def from_texts_def slice_of_entry_def KnowledgeSlice_def Let_def)

lemma research_diagram_counts:
  "length (result_hits (fst (run_case e research_diagram))) = 3
   \<and> length (relevant_found (fst (run_case e research_diagram))) = 2
   \<and> set (relevant_found (fst (run_case e research_diagram)))
       = {''text-transformer'', ''image-attention''}
   \<and> set (map hit_id (result_hits (fst (run_case e research_diagram))))
       = {''text-transformer'', ''text-cv'', ''image-attention''}"
proof -
  have k: "case_top_k research_diagram = 3"
    and rel: "case_relevant_ids research_diagram = [''text-transformer'', ''image-attention'']"
    by (simp_all add: research_diagram_def)
  have l: "length (slices (case_bundle research_diagram)) = 3"
    using arg_cong[OF research_diagram_ids, of length] by simp
  have "0 \<le> case_top_k research_diagram"
    "length (slices (case_bundle research_diagram)) \<le> nat (case_top_k research_diagram)"
    by (simp_all add: k l)
  from run_case_counts[OF this, of e] show ?thesis
    by (simp only: research_diagram_ids rel l) auto
qed

text \<open>Claim C5, amended. The claim reports precision 1.0 for the built-in case
  \<^verbatim>\<open>research-diagram\<close>. Its corpus has three documents and \<open>top_k\<close> is 3, so whatever the
  engine's boosts, all three documents are returned: both relevant ids are found, the recall
  is 1.0, and the precision is \<open>round(2/3, 4) = 0.6667\<close>.\<close>

theorem research_diagram_result:
  "results (fst (run e [research_diagram])) = [fst (run_case e research_diagram)]
   \<and> set (relevant_found (fst (run_case e research_diagram)))
       = {''text-transformer'', ''image-attention''}
   \<and> length (relevant_found (fst (run_case e research_diagram))) = 2
   \<and> length (result_hits (fst (run_case e research_diagram))) = 3
   \<and> recall_at_k (fst (run_case e research_diagram)) = 1
   \<and> precision_at_k (fst (run_case e research_diagram)) = 6667 / 10000"
proof -
  let ?r = "fst (run_case e research_diagram)"
  note f = run_case_fields[of e research_diagram]
  note c = research_diagram_counts[of e]
  have rel: "length (case_relevant_ids research_diagram) = 2"
    by (simp add: research_diagram_def)
  have rc: "recall_at_k ?r = 1" using f c rel by simp
  have "precision_at_k ?r = py_round (2 / 3) 4" using f c by simp
  also have "\<dots> = 6667 / 10000" by (simp add: round_defs)
  finally have pr: "precision_at_k ?r = 6667 / 10000" .
  from c rc pr show ?thesis by (simp add: run_single)
qed


text \<open>The counterexample to claim C5 as stated, on the runner's default engine: both relevant
  ids are among the three hits, and the precision is 0.6667.\<close>

theorem research_diagram_precision_counterexample:
  "''text-transformer'' \<in> set (map hit_id (result_hits (hd (results (fst (run (RetrievalBenchmarkRunner None) [research_diagram]))))))
   \<and> ''image-attention'' \<in> set (map hit_id (result_hits (hd (results (fst (run (RetrievalBenchmarkRunner None) [research_diagram]))))))
   \<and> length (result_hits (hd (results (fst (run (RetrievalBenchmarkRunner None) [research_diagram]))))) = 3
   \<and> precision_at_k (hd (results (fst (run (RetrievalBenchmarkRunner None) [research_diagram])))) = 6667 / 10000
   \<and> precision_at_k (hd (results (fst (run (RetrievalBenchmarkRunner None) [research_diagram])))) \<noteq> 1"
proof -
  let ?e = "RetrievalBenchmarkRunner None"
  let ?r = "fst (run_case ?e research_diagram)"
  note f = run_case_fields[of ?e research_diagram]
  note c = research_diagram_counts[of ?e]
  have hd: "hd (results (fst (run ?e [research_diagram]))) = ?r" by (simp add: run_single)
  have "precision_at_k ?r = py_round (2 / 3) 4" using f c by simp
  also have "\<dots> = 6667 / 10000" by (simp add: round_defs)
  finally have pr: "precision_at_k ?r = 6667 / 10000" .
  show ?thesis unfolding hd using c pr by simp
qed


end
